theory Spec2Isabelle
  imports Main "HOL-Library.Word"
begin

section \<open>Bytes and text\<close>

text \<open>
  An \<^verbatim>\<open>ArrayBuffer\<close>, \<^verbatim>\<open>Uint8Array\<close> or \<^verbatim>\<open>Buffer\<close> is a list of 8-bit words. A
  JavaScript string is a list of 16-bit code units. Base64 text and exported keys use
  code units below 256 only and are written as HOL strings.
\<close>

type_synonym byte = "8 word"
type_synonym jsstring = "16 word list"

definition js :: "string \<Rightarrow> jsstring" where
  "js s = map (\<lambda>c. of_nat (of_char c)) s"

subsection \<open>\<^verbatim>\<open>Buffer.from(buffer).toString("base64")\<close>\<close>

definition b64char :: "nat \<Rightarrow> char" where
  "b64char n =
     (if n < 26 then char_of (n + 65)
      else if n < 52 then char_of (n + 71)
      else if n < 62 then char_of (n - 4)
      else if n = 62 then CHR ''+''
      else CHR ''/'')"

fun toString_base64 :: "byte list \<Rightarrow> string" where
  "toString_base64 (a # b # c # r) =
     b64char (unat a div 4)
     # b64char ((unat a mod 4) * 16 + unat b div 16)
     # b64char ((unat b mod 16) * 4 + unat c div 64)
     # b64char (unat c mod 64)
     # toString_base64 r"
| "toString_base64 [a, b] =
     [b64char (unat a div 4),
      b64char ((unat a mod 4) * 16 + unat b div 16),
      b64char ((unat b mod 16) * 4),
      CHR ''='']"
| "toString_base64 [a] =
     [b64char (unat a div 4), b64char ((unat a mod 4) * 16), CHR ''='', CHR ''='']"
| "toString_base64 [] = []"

subsection \<open>\<^verbatim>\<open>Buffer.from(base64, "base64")\<close>\<close>

text \<open>
  Node's decoder never throws. It accepts the standard and the URL-safe alphabet, skips
  every other character, and stops at the first \<^verbatim>\<open>=\<close>. Four sextets give three bytes;
  a trailing group of three gives two bytes, of two gives one byte, and a single
  trailing sextet gives nothing.
\<close>

definition unbase64 :: "char \<Rightarrow> nat option" where
  "unbase64 c =
     (let n = (of_char c :: nat) in
      if 65 \<le> n \<and> n \<le> 90 then Some (n - 65)
      else if 97 \<le> n \<and> n \<le> 122 then Some (n - 71)
      else if 48 \<le> n \<and> n \<le> 57 then Some (n + 4)
      else if n = 43 \<or> n = 45 then Some 62
      else if n = 47 \<or> n = 95 then Some 63
      else None)"

fun base64_sextets :: "string \<Rightarrow> nat list" where
  "base64_sextets [] = []"
| "base64_sextets (c # cs) =
     (case unbase64 c of
        Some v \<Rightarrow> v # base64_sextets cs
      | None \<Rightarrow> if c = CHR ''='' then [] else base64_sextets cs)"

fun base64_groups :: "nat list \<Rightarrow> byte list" where
  "base64_groups (a # b # c # d # r) =
     of_nat (a * 4 + b div 16)
     # of_nat ((b mod 16) * 16 + c div 4)
     # of_nat ((c mod 4) * 64 + d)
     # base64_groups r"
| "base64_groups [a, b, c] = [of_nat (a * 4 + b div 16), of_nat ((b mod 16) * 16 + c div 4)]"
| "base64_groups [a, b] = [of_nat (a * 4 + b div 16)]"
| "base64_groups _ = []"

definition from_base64 :: "string \<Rightarrow> byte list" where
  "from_base64 s = base64_groups (base64_sextets s)"

subsection \<open>UTF-16 code units and Unicode scalar values\<close>

definition high_surrogate :: "16 word \<Rightarrow> bool" where
  "high_surrogate u \<longleftrightarrow> 0xD800 \<le> unat u \<and> unat u \<le> 0xDBFF"

definition low_surrogate :: "16 word \<Rightarrow> bool" where
  "low_surrogate u \<longleftrightarrow> 0xDC00 \<le> unat u \<and> unat u \<le> 0xDFFF"

definition pair_value :: "16 word \<Rightarrow> 16 word \<Rightarrow> nat" where
  "pair_value u v = 0x10000 + (unat u - 0xD800) * 0x400 + (unat v - 0xDC00)"

text \<open>
  Reading a string as scalar values: a surrogate pair is one code point, an unpaired
  surrogate is replaced by U+FFFD. This is what \<^verbatim>\<open>TextEncoder.encode\<close> and
  \<^verbatim>\<open>Buffer.from(string)\<close> do before encoding.
\<close>

fun code_points :: "jsstring \<Rightarrow> nat list" where
  "code_points [] = []"
| "code_points [u] = (if high_surrogate u \<or> low_surrogate u then [0xFFFD] else [unat u])"
| "code_points (u # v # vs) =
     (if high_surrogate u then
        (if low_surrogate v then pair_value u v # code_points vs
         else 0xFFFD # code_points (v # vs))
      else if low_surrogate u then 0xFFFD # code_points (v # vs)
      else unat u # code_points (v # vs))"

fun utf16_units :: "nat list \<Rightarrow> jsstring" where
  "utf16_units [] = []"
| "utf16_units (c # cs) =
     (if c < 0x10000 then of_nat c # utf16_units cs
      else of_nat (0xD800 + (c - 0x10000) div 0x400)
           # of_nat (0xDC00 + (c - 0x10000) mod 0x400) # utf16_units cs)"

text \<open>A string is well formed when it has no unpaired surrogate.\<close>

fun well_formed :: "jsstring \<Rightarrow> bool" where
  "well_formed [] = True"
| "well_formed [u] = (\<not> high_surrogate u \<and> \<not> low_surrogate u)"
| "well_formed (u # v # vs) =
     (if high_surrogate u then low_surrogate v \<and> well_formed vs
      else \<not> low_surrogate u \<and> well_formed (v # vs))"

definition scalar :: "nat \<Rightarrow> bool" where
  "scalar c \<longleftrightarrow> c < 0x110000 \<and> \<not> (0xD800 \<le> c \<and> c \<le> 0xDFFF)"

subsection \<open>UTF-8\<close>

definition utf8_bytes :: "nat \<Rightarrow> byte list" where
  "utf8_bytes c =
     (if c < 0x80 then [of_nat c]
      else if c < 0x800 then [of_nat (0xC0 + c div 64), of_nat (0x80 + c mod 64)]
      else if c < 0x10000 then
        [of_nat (0xE0 + c div 4096), of_nat (0x80 + c div 64 mod 64), of_nat (0x80 + c mod 64)]
      else
        [of_nat (0xF0 + c div 262144), of_nat (0x80 + c div 4096 mod 64),
         of_nat (0x80 + c div 64 mod 64), of_nat (0x80 + c mod 64)])"

text \<open>
  The decoder of the Encoding Standard in replacement mode. Its state is the code point
  collected so far, the number of continuation bytes still needed, and the bounds for
  the next byte. A byte that breaks a sequence yields U+FFFD and is read again as the
  start of a new sequence.
\<close>

function utf8_decode :: "nat \<Rightarrow> nat \<Rightarrow> nat \<Rightarrow> nat \<Rightarrow> byte list \<Rightarrow> nat list" where
  "utf8_decode cp need lo hi [] = (if need \<noteq> 0 then [0xFFFD] else [])"
| "utf8_decode cp need lo hi (b # bs) =
     (if need = 0 then
        (if unat b \<le> 0x7F then unat b # utf8_decode 0 0 0x80 0xBF bs
         else if 0xC2 \<le> unat b \<and> unat b \<le> 0xDF then utf8_decode (unat b mod 32) 1 0x80 0xBF bs
         else if 0xE0 \<le> unat b \<and> unat b \<le> 0xEF then
           utf8_decode (unat b mod 16) 2
             (if unat b = 0xE0 then 0xA0 else 0x80) (if unat b = 0xED then 0x9F else 0xBF) bs
         else if 0xF0 \<le> unat b \<and> unat b \<le> 0xF4 then
           utf8_decode (unat b mod 8) 3
             (if unat b = 0xF0 then 0x90 else 0x80) (if unat b = 0xF4 then 0x8F else 0xBF) bs
         else 0xFFFD # utf8_decode 0 0 0x80 0xBF bs)
      else if unat b < lo \<or> hi < unat b then 0xFFFD # utf8_decode 0 0 0x80 0xBF (b # bs)
      else if need = 1 then (cp * 64 + unat b mod 64) # utf8_decode 0 0 0x80 0xBF bs
      else utf8_decode (cp * 64 + unat b mod 64) (need - 1) 0x80 0xBF bs)"
  by pat_completeness auto
termination
  by (relation "measure (\<lambda>(cp, need, lo, hi, bs). 2 * length bs + (if need = 0 then 0 else 1))")
     auto

declare utf8_decode.simps [simp del]

fun strip_bom :: "byte list \<Rightarrow> byte list" where
  "strip_bom (a # b # c # r) = (if a = 0xEF \<and> b = 0xBB \<and> c = 0xBF then r else a # b # c # r)"
| "strip_bom bs = bs"

text \<open>\<^verbatim>\<open>new TextEncoder().encode(str)\<close>\<close>

definition TextEncoder_encode :: "jsstring \<Rightarrow> byte list" where
  "TextEncoder_encode s = concat (map utf8_bytes (code_points s))"

text \<open>
  \<^verbatim>\<open>new TextDecoder().decode(bytes)\<close>: UTF-8, not fatal, and \<^verbatim>\<open>ignoreBOM\<close> false, so a
  leading byte order mark is removed.
\<close>

definition TextDecoder_decode :: "byte list \<Rightarrow> jsstring" where
  "TextDecoder_decode bs = utf16_units (utf8_decode 0 0 0x80 0xBF (strip_bom bs))"

text \<open>\<^verbatim>\<open>buffer.toString("utf-8")\<close> keeps a byte order mark.\<close>

definition toString_utf8 :: "byte list \<Rightarrow> jsstring" where
  "toString_utf8 bs = utf16_units (utf8_decode 0 0 0x80 0xBF bs)"

section \<open>The Web Crypto interface\<close>

text \<open>
  \<^verbatim>\<open>webcrypto.subtle\<close> is not part of the repository. Its key objects, its checks and
  its errors follow the Web Cryptography API; the ciphers themselves (AES-GCM, RSA-OAEP,
  the SPKI and PKCS8 encodings, RSA key generation) are parameters, collected in a record.
  Random bytes are explicit arguments.

  The errors are the names of the \<^verbatim>\<open>DOMException\<close> that is thrown: \<open>DataError\<close> is what
  the specification calls a key format error, \<open>OperationError\<close> is what it calls a
  decryption error (or, on encryption, a too large plaintext).
\<close>

datatype dom_exception = DataError | OperationError | InvalidAccessError | NotSupportedError
  | SyntaxError

datatype key_usage = Encrypt | Decrypt

datatype key_format = Raw | Spki | Pkcs8

datatype key_algorithm = AES_GCM | RSA_OAEP

datatype ('pub, 'prv) key_material = RawKey "byte list" | RsaPublic 'pub | RsaPrivate 'prv

record ('pub, 'prv) crypto_key =
  extractable :: bool
  usages :: "key_usage list"
  material :: "('pub, 'prv) key_material"

record ('pub, 'prv) primitives =
  gcm_seal :: "byte list \<Rightarrow> byte list \<Rightarrow> byte list \<Rightarrow> byte list"
  gcm_open :: "byte list \<Rightarrow> byte list \<Rightarrow> byte list \<Rightarrow> byte list option"
  rsa_keygen :: "byte list \<Rightarrow> 'pub \<times> 'prv"
  spki_der :: "'pub \<Rightarrow> byte list"
  spki_parse :: "byte list \<Rightarrow> 'pub option"
  pkcs8_der :: "'prv \<Rightarrow> byte list"
  pkcs8_parse :: "byte list \<Rightarrow> 'prv option"
  oaep_seal :: "'pub \<Rightarrow> byte list \<Rightarrow> byte list \<Rightarrow> byte list option"
  oaep_open :: "'prv \<Rightarrow> byte list \<Rightarrow> byte list option"

text \<open>
  \<open>gcm_seal key iv plaintext\<close> is the ciphertext followed by the tag; \<open>gcm_open\<close> is
  \<open>None\<close> when the tag does not verify. \<open>oaep_seal pub seed message\<close> is \<open>None\<close> when
  the message is too long for the modulus.
\<close>

definition aes_key_length :: "nat \<Rightarrow> bool" where
  "aes_key_length n \<longleftrightarrow> n = 16 \<or> n = 24 \<or> n = 32"

text \<open>
  \<^verbatim>\<open>subtle.generateKey\<close> for RSA-OAEP: the public key is always extractable and keeps of
  the requested usages only \<^verbatim>\<open>encrypt\<close>, the private key only \<^verbatim>\<open>decrypt\<close>.
\<close>

definition generateKey_rsa ::
  "('pub, 'prv) primitives \<Rightarrow> byte list \<Rightarrow> bool \<Rightarrow> key_usage list
   \<Rightarrow> ('pub, 'prv) crypto_key \<times> ('pub, 'prv) crypto_key" where
  "generateKey_rsa P seed ext us =
     (case rsa_keygen P seed of (pub, prv) \<Rightarrow>
        (\<lparr>extractable = True, usages = filter (\<lambda>u. u = Encrypt) us, material = RsaPublic pub\<rparr>,
         \<lparr>extractable = ext, usages = filter (\<lambda>u. u = Decrypt) us, material = RsaPrivate prv\<rparr>))"

text \<open>\<^verbatim>\<open>subtle.generateKey\<close> for AES-GCM with \<^verbatim>\<open>length: 256\<close>: 32 random bytes.\<close>

definition generateKey_aes256 ::
  "byte list \<Rightarrow> bool \<Rightarrow> key_usage list \<Rightarrow> ('pub, 'prv) crypto_key" where
  "generateKey_aes256 rnd ext us =
     \<lparr>extractable = ext, usages = us, material = RawKey (take 32 rnd)\<rparr>"

definition exportKey ::
  "('pub, 'prv) primitives \<Rightarrow> key_format \<Rightarrow> ('pub, 'prv) crypto_key
   \<Rightarrow> dom_exception + byte list" where
  "exportKey P fmt k =
     (if \<not> extractable k then Inl InvalidAccessError
      else case material k of
        RawKey bs \<Rightarrow> (case fmt of Raw \<Rightarrow> Inr bs | _ \<Rightarrow> Inl NotSupportedError)
      | RsaPublic pub \<Rightarrow>
          (case fmt of Spki \<Rightarrow> Inr (spki_der P pub)
           | Pkcs8 \<Rightarrow> Inl InvalidAccessError
           | Raw \<Rightarrow> Inl NotSupportedError)
      | RsaPrivate prv \<Rightarrow>
          (case fmt of Pkcs8 \<Rightarrow> Inr (pkcs8_der P prv)
           | Spki \<Rightarrow> Inl InvalidAccessError
           | Raw \<Rightarrow> Inl NotSupportedError))"

definition importKey ::
  "('pub, 'prv) primitives \<Rightarrow> key_format \<Rightarrow> byte list \<Rightarrow> key_algorithm \<Rightarrow> bool
   \<Rightarrow> key_usage list \<Rightarrow> dom_exception + ('pub, 'prv) crypto_key" where
  "importKey P fmt keyData alg ext us =
     (case alg of
        AES_GCM \<Rightarrow>
          (case fmt of
             Raw \<Rightarrow>
               if \<not> aes_key_length (length keyData) then Inl DataError
               else if us = [] then Inl SyntaxError
               else Inr \<lparr>extractable = ext, usages = us, material = RawKey keyData\<rparr>
           | _ \<Rightarrow> Inl NotSupportedError)
      | RSA_OAEP \<Rightarrow>
          (case fmt of
             Spki \<Rightarrow>
               if list_ex (\<lambda>u. u \<noteq> Encrypt) us then Inl SyntaxError
               else (case spki_parse P keyData of
                       None \<Rightarrow> Inl DataError
                     | Some pub \<Rightarrow>
                         Inr \<lparr>extractable = ext, usages = us, material = RsaPublic pub\<rparr>)
           | Pkcs8 \<Rightarrow>
               if list_ex (\<lambda>u. u \<noteq> Decrypt) us then Inl SyntaxError
               else (case pkcs8_parse P keyData of
                       None \<Rightarrow> Inl DataError
                     | Some prv \<Rightarrow>
                         if us = [] then Inl SyntaxError
                         else Inr \<lparr>extractable = ext, usages = us, material = RsaPrivate prv\<rparr>)
           | Raw \<Rightarrow> Inl NotSupportedError))"

text \<open>
  \<^verbatim>\<open>subtle.encrypt\<close> and \<^verbatim>\<open>subtle.decrypt\<close>. The algorithm named in the call has to be
  the key's, and the key has to carry the usage. AES-GCM decryption with the default
  128-bit tag refuses data shorter than the tag.
\<close>

datatype cipher_params = AesGcmParams "byte list" | RsaOaepParams

definition encrypt ::
  "('pub, 'prv) primitives \<Rightarrow> byte list \<Rightarrow> cipher_params \<Rightarrow> ('pub, 'prv) crypto_key
   \<Rightarrow> byte list \<Rightarrow> dom_exception + byte list" where
  "encrypt P seed params k plaintext =
     (case params of
        AesGcmParams iv \<Rightarrow>
          (case material k of
             RawKey kb \<Rightarrow>
               if Encrypt \<notin> set (usages k) then Inl InvalidAccessError
               else Inr (gcm_seal P kb iv plaintext)
           | _ \<Rightarrow> Inl InvalidAccessError)
      | RsaOaepParams \<Rightarrow>
          (case material k of
             RsaPublic pub \<Rightarrow>
               if Encrypt \<notin> set (usages k) then Inl InvalidAccessError
               else (case oaep_seal P pub seed plaintext of
                       None \<Rightarrow> Inl OperationError
                     | Some c \<Rightarrow> Inr c)
           | _ \<Rightarrow> Inl InvalidAccessError))"

definition decrypt ::
  "('pub, 'prv) primitives \<Rightarrow> cipher_params \<Rightarrow> ('pub, 'prv) crypto_key
   \<Rightarrow> byte list \<Rightarrow> dom_exception + byte list" where
  "decrypt P params k ciphertext =
     (case params of
        AesGcmParams iv \<Rightarrow>
          (case material k of
             RawKey kb \<Rightarrow>
               if Decrypt \<notin> set (usages k) then Inl InvalidAccessError
               else if length ciphertext < 16 then Inl OperationError
               else (case gcm_open P kb iv ciphertext of
                       None \<Rightarrow> Inl OperationError
                     | Some m \<Rightarrow> Inr m)
           | _ \<Rightarrow> Inl InvalidAccessError)
      | RsaOaepParams \<Rightarrow>
          (case material k of
             RsaPrivate prv \<Rightarrow>
               if Decrypt \<notin> set (usages k) then Inl InvalidAccessError
               else (case oaep_open P prv ciphertext of
                       None \<Rightarrow> Inl OperationError
                     | Some m \<Rightarrow> Inr m)
           | _ \<Rightarrow> Inl InvalidAccessError))"

text \<open>
  What the theorems assume of the ciphers: AES-GCM opens what it sealed under the same
  key and a 12-byte IV and appends a 16-byte tag; for a generated RSA pair the encodings
  parse back, and OAEP (2048-bit modulus, SHA-256) opens what it sealed for messages of
  at most 190 bytes.
\<close>

definition gcm_sound :: "('pub, 'prv) primitives \<Rightarrow> bool" where
  "gcm_sound P \<longleftrightarrow>
     (\<forall>k iv m. aes_key_length (length k) \<and> length iv = 12 \<longrightarrow>
        gcm_open P k iv (gcm_seal P k iv m) = Some m
        \<and> length (gcm_seal P k iv m) = length m + 16)"

definition rsa_sound :: "('pub, 'prv) primitives \<Rightarrow> bool" where
  "rsa_sound P \<longleftrightarrow>
     (\<forall>seed pub prv. rsa_keygen P seed = (pub, prv) \<longrightarrow>
        spki_parse P (spki_der P pub) = Some pub
        \<and> pkcs8_parse P (pkcs8_der P prv) = Some prv
        \<and> (\<forall>r m. length m \<le> 190 \<longrightarrow>
              (\<exists>c. oaep_seal P pub r m = Some c \<and> oaep_open P prv c = Some m)))"

text \<open>
  A trivial instance of the parameters, which only shows that the two assumptions can be
  met: the tag is sixteen zero bytes and every key is its own encoding.
\<close>

definition demo :: "(byte list, byte list) primitives" where
  "demo =
     \<lparr>gcm_seal = (\<lambda>k iv m. m @ replicate 16 0),
      gcm_open = (\<lambda>k iv c. if length c < 16 then None else Some (take (length c - 16) c)),
      rsa_keygen = (\<lambda>seed. (seed, seed)),
      spki_der = (\<lambda>pub. pub),
      spki_parse = (\<lambda>bs. Some bs),
      pkcs8_der = (\<lambda>prv. prv),
      pkcs8_parse = (\<lambda>bs. Some bs),
      oaep_seal = (\<lambda>pub r m. if length m \<le> 190 then Some m else None),
      oaep_open = (\<lambda>prv c. Some c)\<rparr>"

section \<open>\<^verbatim>\<open>src/crypto.ts\<close>\<close>

definition arrayBufferToBase64 :: "byte list \<Rightarrow> string" where
  "arrayBufferToBase64 buffer = toString_base64 buffer"

definition base64ToArrayBuffer :: "string \<Rightarrow> byte list" where
  "base64ToArrayBuffer base64 = from_base64 base64"

definition generateRsaKeyPair ::
  "('pub, 'prv) primitives \<Rightarrow> byte list
   \<Rightarrow> ('pub, 'prv) crypto_key \<times> ('pub, 'prv) crypto_key" where
  "generateRsaKeyPair P seed = generateKey_rsa P seed True [Encrypt, Decrypt]"

definition exportPubKey ::
  "('pub, 'prv) primitives \<Rightarrow> ('pub, 'prv) crypto_key \<Rightarrow> dom_exception + string" where
  "exportPubKey P key =
     (case exportKey P Spki key of
        Inl e \<Rightarrow> Inl e
      | Inr exportedKey \<Rightarrow> Inr (arrayBufferToBase64 exportedKey))"

definition exportPrvKey ::
  "('pub, 'prv) primitives \<Rightarrow> ('pub, 'prv) crypto_key option
   \<Rightarrow> dom_exception + string option" where
  "exportPrvKey P key =
     (case key of
        None \<Rightarrow> Inr None
      | Some k \<Rightarrow>
          (case exportKey P Pkcs8 k of
             Inl e \<Rightarrow> Inl e
           | Inr exportedKey \<Rightarrow> Inr (Some (arrayBufferToBase64 exportedKey))))"

definition importPubKey ::
  "('pub, 'prv) primitives \<Rightarrow> string \<Rightarrow> dom_exception + ('pub, 'prv) crypto_key" where
  "importPubKey P strKey = importKey P Spki (base64ToArrayBuffer strKey) RSA_OAEP True [Encrypt]"

definition importPrvKey ::
  "('pub, 'prv) primitives \<Rightarrow> string \<Rightarrow> dom_exception + ('pub, 'prv) crypto_key" where
  "importPrvKey P strKey = importKey P Pkcs8 (base64ToArrayBuffer strKey) RSA_OAEP True [Decrypt]"

definition rsaEncrypt ::
  "('pub, 'prv) primitives \<Rightarrow> byte list \<Rightarrow> string \<Rightarrow> string \<Rightarrow> dom_exception + string" where
  "rsaEncrypt P seed b64Data strPublicKey =
     (case importPubKey P strPublicKey of
        Inl e \<Rightarrow> Inl e
      | Inr publicKey \<Rightarrow>
          (case encrypt P seed RsaOaepParams publicKey (base64ToArrayBuffer b64Data) of
             Inl e \<Rightarrow> Inl e
           | Inr encryptedBuffer \<Rightarrow> Inr (toString_base64 encryptedBuffer)))"

definition rsaDecrypt ::
  "('pub, 'prv) primitives \<Rightarrow> string \<Rightarrow> ('pub, 'prv) crypto_key
   \<Rightarrow> dom_exception + jsstring" where
  "rsaDecrypt P data privateKey =
     (case decrypt P RsaOaepParams privateKey (base64ToArrayBuffer data) of
        Inl e \<Rightarrow> Inl e
      | Inr decryptedBuffer \<Rightarrow> Inr (toString_utf8 decryptedBuffer))"

definition createRandomSymmetricKey :: "byte list \<Rightarrow> ('pub, 'prv) crypto_key" where
  "createRandomSymmetricKey rnd = generateKey_aes256 rnd True [Encrypt, Decrypt]"

definition exportSymKey ::
  "('pub, 'prv) primitives \<Rightarrow> ('pub, 'prv) crypto_key \<Rightarrow> dom_exception + string" where
  "exportSymKey P key =
     (case exportKey P Raw key of
        Inl e \<Rightarrow> Inl e
      | Inr exportedKey \<Rightarrow> Inr (arrayBufferToBase64 exportedKey))"

definition importSymKey ::
  "('pub, 'prv) primitives \<Rightarrow> string \<Rightarrow> dom_exception + ('pub, 'prv) crypto_key" where
  "importSymKey P strKey =
     importKey P Raw (base64ToArrayBuffer strKey) AES_GCM True [Encrypt, Decrypt]"

definition stringToUint8Array :: "jsstring \<Rightarrow> byte list" where
  "stringToUint8Array str = TextEncoder_encode str"

text \<open>\<open>iv\<close> is the value of \<^verbatim>\<open>crypto.getRandomValues(new Uint8Array(12))\<close>.\<close>

definition symEncrypt ::
  "('pub, 'prv) primitives \<Rightarrow> ('pub, 'prv) crypto_key \<Rightarrow> byte list \<Rightarrow> jsstring
   \<Rightarrow> dom_exception + string" where
  "symEncrypt P key iv data =
     (let encodedData = stringToUint8Array data in
      case encrypt P [] (AesGcmParams iv) key encodedData of
        Inl e \<Rightarrow> Inl e
      | Inr encryptedData \<Rightarrow> Inr (toString_base64 (iv @ encryptedData)))"

definition uint8ArrayToString :: "byte list \<Rightarrow> jsstring" where
  "uint8ArrayToString uint8Array = TextDecoder_decode uint8Array"

definition symDecrypt ::
  "('pub, 'prv) primitives \<Rightarrow> string \<Rightarrow> string \<Rightarrow> dom_exception + jsstring" where
  "symDecrypt P strKey encryptedData =
     (case importSymKey P strKey of
        Inl e \<Rightarrow> Inl e
      | Inr key \<Rightarrow>
          (let encodedData = base64ToArrayBuffer encryptedData in
           case decrypt P (AesGcmParams (take 12 encodedData)) key (drop 12 encodedData) of
             Inl e \<Rightarrow> Inl e
           | Inr decryptedData \<Rightarrow> Inr (uint8ArrayToString decryptedData)))"

text \<open>A symmetric key that \<open>symEncrypt\<close> can use: AES key bytes with the \<open>Encrypt\<close> usage.\<close>

definition sym_key :: "('pub, 'prv) crypto_key \<Rightarrow> bool" where
  "sym_key k =
     (case material k of
        RawKey kb \<Rightarrow> aes_key_length (length kb) \<and> Encrypt \<in> set (usages k)
      | _ \<Rightarrow> False)"

text \<open>
  The two scenarios of the specification, as compositions of the functions above:
  \<^verbatim>\<open>symDecrypt(await exportSymKey(k), await symEncrypt(k, s))\<close> and, for a generated
  pair, \<^verbatim>\<open>rsaDecrypt(await rsaEncrypt(d, await exportPubKey(publicKey)), privateKey)\<close>.
\<close>

definition sym_round_trip ::
  "('pub, 'prv) primitives \<Rightarrow> ('pub, 'prv) crypto_key \<Rightarrow> byte list \<Rightarrow> jsstring
   \<Rightarrow> dom_exception + jsstring" where
  "sym_round_trip P k iv s =
     (case exportSymKey P k of
        Inl e \<Rightarrow> Inl e
      | Inr strKey \<Rightarrow>
          (case symEncrypt P k iv s of
             Inl e \<Rightarrow> Inl e
           | Inr blob \<Rightarrow> symDecrypt P strKey blob))"

definition rsa_round_trip ::
  "('pub, 'prv) primitives \<Rightarrow> byte list \<Rightarrow> byte list \<Rightarrow> string \<Rightarrow> dom_exception + jsstring"
  where
  "rsa_round_trip P keySeed seed b64Data =
     (case generateRsaKeyPair P keySeed of
        (publicKey, privateKey) \<Rightarrow>
          (case exportPubKey P publicKey of
             Inl e \<Rightarrow> Inl e
           | Inr strPublicKey \<Rightarrow>
               (case rsaEncrypt P seed b64Data strPublicKey of
                  Inl e \<Rightarrow> Inl e
                | Inr encrypted \<Rightarrow> rsaDecrypt P encrypted privateKey)))"

section \<open>The registry\<close>

text \<open>
  The two module-level constants \<^verbatim>\<open>nodes\<close> and \<^verbatim>\<open>nodeKeys\<close> are the state. A node
  id is a JSON number, compared with \<^verbatim>\<open>===\<close>. \<^verbatim>\<open>parseInt\<close> is a parameter: it maps the
  query value (absent or a string) to a number, \<open>None\<close> standing for \<^verbatim>\<open>NaN\<close>.
\<close>

record node =
  nodeId :: int
  pubKey :: string

record node_key =
  privateKey :: jsstring
  publicKey :: jsstring

record registry =
  nodes :: "node list"
  nodeKeys :: "int \<rightharpoonup> node_key"

definition initial :: registry where
  "initial = \<lparr>nodes = [], nodeKeys = Map.empty\<rparr>"

datatype request =
  GetStatus
  | PostRegisterNode node
  | GetPrivateKey "string option"
  | GetNodeRegistry

datatype body = Text string | ResultJson string | NodesJson "node list"

type_synonym response = "nat \<times> body"

definition registerNode :: "registry \<Rightarrow> node \<Rightarrow> response \<times> registry" where
  "registerNode st b =
     (case find (\<lambda>n. nodeId n = nodeId b) (nodes st) of
        Some n \<Rightarrow> ((400, Text ''Node already registered.''), st)
      | None \<Rightarrow>
          ((201, Text ''Node registered successfully.''),
           st\<lparr>nodes := nodes st @ [\<lparr>nodeId = nodeId b, pubKey = pubKey b\<rparr>]\<rparr>))"

definition getPrivateKey ::
  "(string option \<Rightarrow> int option) \<Rightarrow> registry \<Rightarrow> string option \<Rightarrow> response" where
  "getPrivateKey parseInt st q =
     (case (case parseInt q of None \<Rightarrow> None | Some i \<Rightarrow> nodeKeys st i) of
        None \<Rightarrow> (404, Text ''Node not found or key not generated.'')
      | Some nodeKey \<Rightarrow>
          (200, ResultJson (toString_base64 (TextEncoder_encode (privateKey nodeKey)))))"

definition getNodeRegistry :: "registry \<Rightarrow> response" where
  "getNodeRegistry st = (200, NodesJson (nodes st))"

fun handle ::
  "(string option \<Rightarrow> int option) \<Rightarrow> registry \<Rightarrow> request \<Rightarrow> response \<times> registry" where
  "handle parseInt st GetStatus = ((200, Text ''live''), st)"
| "handle parseInt st (PostRegisterNode b) = registerNode st b"
| "handle parseInt st (GetPrivateKey q) = (getPrivateKey parseInt st q, st)"
| "handle parseInt st GetNodeRegistry = (getNodeRegistry st, st)"

text \<open>Serving a sequence of requests, one after the other.\<close>

fun serve ::
  "(string option \<Rightarrow> int option) \<Rightarrow> registry \<Rightarrow> request list \<Rightarrow> response list \<times> registry"
  where
  "serve parseInt st [] = ([], st)"
| "serve parseInt st (r # rs) =
     (case handle parseInt st r of
        (resp, st') \<Rightarrow> (case serve parseInt st' rs of (resps, st'') \<Rightarrow> (resp # resps, st'')))"

section \<open>Base64 round trip\<close>

lemma unbase64_b64char: "n < 64 \<Longrightarrow> unbase64 (b64char n) = Some n"
  by (auto simp: unbase64_def b64char_def Let_def)

lemma unbase64_pad: "unbase64 CHR ''='' = None"
  by (simp add: unbase64_def)

lemma sextets_cons: "n < 64 \<Longrightarrow> base64_sextets (b64char n # cs) = n # base64_sextets cs"
  by (simp add: unbase64_b64char)

lemma sextets_pad: "base64_sextets (CHR ''='' # cs) = []"
  by (simp add: unbase64_pad)

lemma byte_lt: "unat (a :: byte) < 256"
  using unsigned_less [of a] by simp

lemma first_byte_nat: "b < 256 \<Longrightarrow> (a div 4 * 4 + (a mod 4 * 16 + b div 16) div 16) = (a::nat)"
  by simp

lemma second_byte_nat: "b < 256 \<Longrightarrow> c < 256 \<Longrightarrow> ((a mod 4 * 16 + b div 16) mod 16 * 16 + (b mod 16 * 4 + c div 64) div 4) = (b::nat)"
  by (simp add: div_add1_eq mod_add_eq) 

lemma second_byte_pad_nat: "b < 256 \<Longrightarrow> ((a mod 4 * 16 + b div 16) mod 16 * 16 + (b mod 16 * 4) div 4) = (b::nat)"
  by (simp add: div_add1_eq mod_add_eq) 

lemma third_byte_nat: "c < 256 \<Longrightarrow> ((b mod 16 * 4 + c div 64) mod 4 * 64 + c mod 64) = (c::nat)"
  by (simp add: div_add1_eq mod_add_eq) 

lemma sextet_bounds:
  "unat (a::byte) div 4 < 64" "unat (a::byte) mod 4 * 16 + unat (b::byte) div 16 < 64"
  "unat (b::byte) mod 16 * 4 + unat (c::byte) div 64 < 64" "unat (c::byte) mod 64 < 64"
  "unat (a::byte) mod 4 * 16 < 64" "unat (b::byte) mod 16 * 4 < 64"
  using byte_lt [of a] byte_lt [of b] byte_lt [of c] by simp_all

lemma of_nat_unat_byte: "(of_nat (unat (a::byte)) :: byte) = a"
  by simp

lemma first_byte: "(of_nat (unat a div 4 * 4 + (unat a mod 4 * 16 + unat (b::byte) div 16) div 16) :: byte) = a"
  by (simp only: first_byte_nat [OF byte_lt] of_nat_unat_byte)

lemma first_byte_pad: "(of_nat (unat a div 4 * 4 + (unat a mod 4 * 16) div 16) :: byte) = a"
  using first_byte [of a 0] by simp

lemma second_byte: "(of_nat ((unat (a::byte) mod 4 * 16 + unat b div 16) mod 16 * 16 + (unat b mod 16 * 4 + unat (c::byte) div 64) div 4) :: byte) = b"
  by (simp only: second_byte_nat [OF byte_lt byte_lt] of_nat_unat_byte)

lemma second_byte_pad: "(of_nat ((unat (a::byte) mod 4 * 16 + unat b div 16) mod 16 * 16 + (unat b mod 16 * 4) div 4) :: byte) = b"
  using second_byte [of a b 0] by simp

lemma third_byte: "(of_nat ((unat (b::byte) mod 16 * 4 + unat c div 64) mod 4 * 64 + unat c mod 64) :: byte) = c"
  by (simp only: third_byte_nat [OF byte_lt] of_nat_unat_byte)

lemma from_base64_toString_base64: "from_base64 (toString_base64 bs) = bs"
  unfolding from_base64_def
proof (induction bs rule: toString_base64.induct)
  case (1 a b c r)
  then show ?case
    by (simp only: toString_base64.simps sextets_cons sextet_bounds base64_groups.simps first_byte second_byte third_byte)
next
  case (2 a b)
  then show ?case
    by (simp only: toString_base64.simps sextets_cons sextets_pad sextet_bounds base64_groups.simps first_byte second_byte_pad)
next
  case (3 a)
  then show ?case
    by (simp only: toString_base64.simps sextets_cons sextets_pad sextet_bounds base64_groups.simps first_byte_pad)
next
  case 4
  then show ?case by simp
qed

section \<open>UTF-8 and UTF-16 round trips\<close>

lemma unat_of_nat_byte: "x < 256 \<Longrightarrow> unat (of_nat x :: byte) = x"
  by (simp add: unsigned_of_nat take_bit_nat_eq_self)

lemma utf8_decode_ascii:
  "v \<le> 0x7F \<Longrightarrow> utf8_decode cp 0 lo hi (of_nat v # bs) = v # utf8_decode 0 0 0x80 0xBF bs"
  by (subst utf8_decode.simps) (simp add: unat_of_nat_byte)

lemma utf8_decode_lead2:
  "0xC2 \<le> v \<Longrightarrow> v \<le> 0xDF \<Longrightarrow>
   utf8_decode cp 0 lo hi (of_nat v # bs) = utf8_decode (v mod 32) 1 0x80 0xBF bs"
  by (subst utf8_decode.simps) (simp add: unat_of_nat_byte)

lemma utf8_decode_lead3:
  "0xE0 \<le> v \<Longrightarrow> v \<le> 0xEF \<Longrightarrow>
   utf8_decode cp 0 lo hi (of_nat v # bs) =
   utf8_decode (v mod 16) (Suc (Suc 0))
     (if v = 0xE0 then 0xA0 else 0x80) (if v = 0xED then 0x9F else 0xBF) bs"
  by (subst utf8_decode.simps) (simp add: unat_of_nat_byte numeral_2_eq_2)

lemma utf8_decode_lead4:
  "0xF0 \<le> v \<Longrightarrow> v \<le> 0xF4 \<Longrightarrow>
   utf8_decode cp 0 lo hi (of_nat v # bs) =
   utf8_decode (v mod 8) (Suc (Suc (Suc 0)))
     (if v = 0xF0 then 0x90 else 0x80) (if v = 0xF4 then 0x8F else 0xBF) bs"
  by (subst utf8_decode.simps) (simp add: unat_of_nat_byte numeral_3_eq_3)

lemma utf8_decode_last:
  "lo \<le> v \<Longrightarrow> v \<le> hi \<Longrightarrow> v < 256 \<Longrightarrow>
   utf8_decode cp (Suc 0) lo hi (of_nat v # bs) = (cp * 64 + v mod 64) # utf8_decode 0 0 0x80 0xBF bs"
  by (subst utf8_decode.simps) (simp add: unat_of_nat_byte)

lemma utf8_decode_cont:
  "lo \<le> v \<Longrightarrow> v \<le> hi \<Longrightarrow> v < 256 \<Longrightarrow>
   utf8_decode cp (Suc (Suc n)) lo hi (of_nat v # bs) = utf8_decode (cp * 64 + v mod 64) (Suc n) 0x80 0xBF bs"
  by (subst utf8_decode.simps) (simp add: unat_of_nat_byte)

lemma mod_add_dvd:
  assumes "x < m" "m dvd k"
  shows "(k + x) mod m = (x::nat)"
proof -
  from assms(2) obtain q where "k = m * q" by (auto elim: dvdE)
  then show ?thesis using assms(1) by simp
qed

lemma utf8_decode_bytes1:
  assumes "c < 0x80"
  shows "utf8_decode 0 0 0x80 0xBF (utf8_bytes c @ bs) = c # utf8_decode 0 0 0x80 0xBF bs"
proof -
  have e: "utf8_bytes c = [of_nat c]" using assms by (simp add: utf8_bytes_def)
  show ?thesis using assms by (simp add: e utf8_decode_ascii)
qed

lemma utf8_decode_bytes2:
  assumes "0x80 \<le> c" "c < 0x800"
  shows "utf8_decode 0 0 0x80 0xBF (utf8_bytes c @ bs) = c # utf8_decode 0 0 0x80 0xBF bs"
proof -
  have e: "utf8_bytes c = [of_nat (0xC0 + c div 64), of_nat (0x80 + c mod 64)]"
    using assms by (simp add: utf8_bytes_def)
  have r1: "2 \<le> c div 64" "c div 64 < 32" using assms by simp_all
  have m1: "(0xC0 + c div 64) mod 32 = c div 64" using r1 by (intro mod_add_dvd) simp_all
  have m2: "(0x80 + c mod 64) mod 64 = c mod 64" by (intro mod_add_dvd) simp_all
  have s1: "utf8_decode 0 0 0x80 0xBF (of_nat (0xC0 + c div 64) # of_nat (0x80 + c mod 64) # bs)
      = utf8_decode (c div 64) (Suc 0) 0x80 0xBF (of_nat (0x80 + c mod 64) # bs)"
    using r1 by (subst utf8_decode_lead2) (simp_all add: m1)
  have s2: "utf8_decode (c div 64) (Suc 0) 0x80 0xBF (of_nat (0x80 + c mod 64) # bs)
      = (c div 64 * 64 + c mod 64) # utf8_decode 0 0 0x80 0xBF bs"
    by (subst utf8_decode_last) (simp_all add: m2)
  show ?thesis by (simp only: e append.simps s1 s2) simp
qed

lemma utf8_decode_bytes3:
  assumes "0x800 \<le> c" "c < 0x10000" "\<not> (0xD800 \<le> c \<and> c \<le> 0xDFFF)"
  shows "utf8_decode 0 0 0x80 0xBF (utf8_bytes c @ bs) = c # utf8_decode 0 0 0x80 0xBF bs"
proof -
  define a where "a = c div 4096"
  define b where "b = c div 64 mod 64"
  define d where "d = c mod 64"
  have e: "utf8_bytes c = [of_nat (0xE0 + a), of_nat (0x80 + b), of_nat (0x80 + d)]"
    using assms by (simp add: utf8_bytes_def a_def b_def d_def)
  have ra: "a < 16" using assms by (simp add: a_def)
  have rb: "b < 64" by (simp add: b_def)
  have rd: "d < 64" by (simp add: d_def)
  define x where "x = c div 64"
  have ax: "a = x div 64" unfolding a_def x_def by (simp add: div_mult2_eq)
  have bx: "b = x mod 64" unfolding b_def x_def by simp
  have x32: "32 \<le> x" using assms(1) unfolding x_def by simp
  have ab: "a * 64 + b = c div 64" unfolding ax bx x_def by simp
  have lo: "a = 0 \<Longrightarrow> 32 \<le> b" using x32 unfolding ax bx by simp
  have hi: "b < 32" if "a = 13"
  proof -
    have "13 * 4096 \<le> c" "c < 14 * 4096" using that unfolding a_def by simp_all
    then have "c < 0xD800" using assms(3) by simp
    then have "x < 864" unfolding x_def by simp
    moreover have "x = 13 * 64 + b" using that ab unfolding x_def by simp
    ultimately show ?thesis by simp
  qed
  have m1: "(0xE0 + a) mod 16 = a" using ra by (intro mod_add_dvd) simp_all
  have m2: "(0x80 + b) mod 64 = b" using rb by (intro mod_add_dvd) simp_all
  have m3: "(0x80 + d) mod 64 = d" using rd by (intro mod_add_dvd) simp_all
  have s1: "utf8_decode 0 0 0x80 0xBF (of_nat (0xE0 + a) # of_nat (0x80 + b) # of_nat (0x80 + d) # bs)
      = utf8_decode a (Suc (Suc 0)) (if a = 0 then 0xA0 else 0x80) (if a = 13 then 0x9F else 0xBF)
          (of_nat (0x80 + b) # of_nat (0x80 + d) # bs)"
    using ra by (subst utf8_decode_lead3) (simp_all add: m1)
  have s2: "utf8_decode a (Suc (Suc 0)) (if a = 0 then 0xA0 else 0x80) (if a = 13 then 0x9F else 0xBF)
          (of_nat (0x80 + b) # of_nat (0x80 + d) # bs)
      = utf8_decode (a * 64 + b) (Suc 0) 0x80 0xBF (of_nat (0x80 + d) # bs)"
    using rb lo hi by (subst utf8_decode_cont) (auto simp: m2)
  have s3: "utf8_decode (a * 64 + b) (Suc 0) 0x80 0xBF (of_nat (0x80 + d) # bs)
      = ((a * 64 + b) * 64 + d) # utf8_decode 0 0 0x80 0xBF bs"
    using rd by (subst utf8_decode_last) (simp_all add: m3)
  have "(a * 64 + b) * 64 + d = c" unfolding ab d_def by simp
  then show ?thesis by (simp only: e append.simps s1 s2 s3)
qed

lemma utf8_decode_bytes4:
  assumes "0x10000 \<le> c" "c < 0x110000"
  shows "utf8_decode 0 0 0x80 0xBF (utf8_bytes c @ bs) = c # utf8_decode 0 0 0x80 0xBF bs"
proof -
  define a where "a = c div 262144"
  define b where "b = c div 4096 mod 64"
  define d where "d = c div 64 mod 64"
  define f where "f = c mod 64"
  have e: "utf8_bytes c = [of_nat (0xF0 + a), of_nat (0x80 + b), of_nat (0x80 + d), of_nat (0x80 + f)]"
    using assms by (simp add: utf8_bytes_def a_def b_def d_def f_def)
  have ra: "a \<le> 4" using assms by (simp add: a_def)
  have rb: "b < 64" by (simp add: b_def)
  have rd: "d < 64" by (simp add: d_def)
  have rf: "f < 64" by (simp add: f_def)
  define x where "x = c div 4096"
  have ax: "a = x div 64" unfolding a_def x_def by (simp add: div_mult2_eq)
  have bx: "b = x mod 64" unfolding b_def x_def by simp
  have x16: "16 \<le> x" "x < 272" using assms unfolding x_def by simp_all
  have ab: "a * 64 + b = c div 4096" unfolding ax bx x_def by simp
  have "c div 4096 = c div 64 div 64" by (simp add: div_mult2_eq)
  then have abd: "c div 4096 * 64 + d = c div 64" unfolding d_def by simp
  have lo: "a = 0 \<Longrightarrow> 16 \<le> b" using x16 unfolding ax bx by simp
  have hi: "b < 16" if "a = 4"
  proof -
    have "x = 4 * 64 + b" using that ab unfolding x_def by simp
    then show ?thesis using x16 by simp
  qed
  have m1: "(0xF0 + a) mod 8 = a" using ra by (intro mod_add_dvd) simp_all
  have m2: "(0x80 + b) mod 64 = b" using rb by (intro mod_add_dvd) simp_all
  have m3: "(0x80 + d) mod 64 = d" using rd by (intro mod_add_dvd) simp_all
  have m4: "(0x80 + f) mod 64 = f" using rf by (intro mod_add_dvd) simp_all
  have s1: "utf8_decode 0 0 0x80 0xBF
        (of_nat (0xF0 + a) # of_nat (0x80 + b) # of_nat (0x80 + d) # of_nat (0x80 + f) # bs)
      = utf8_decode a (Suc (Suc (Suc 0))) (if a = 0 then 0x90 else 0x80) (if a = 4 then 0x8F else 0xBF)
          (of_nat (0x80 + b) # of_nat (0x80 + d) # of_nat (0x80 + f) # bs)"
    using ra by (subst utf8_decode_lead4) (simp_all add: m1)
  have s2: "utf8_decode a (Suc (Suc (Suc 0))) (if a = 0 then 0x90 else 0x80) (if a = 4 then 0x8F else 0xBF)
          (of_nat (0x80 + b) # of_nat (0x80 + d) # of_nat (0x80 + f) # bs)
      = utf8_decode (a * 64 + b) (Suc (Suc 0)) 0x80 0xBF (of_nat (0x80 + d) # of_nat (0x80 + f) # bs)"
    using rb lo hi by (subst utf8_decode_cont) (auto simp: m2)
  have s3: "utf8_decode (a * 64 + b) (Suc (Suc 0)) 0x80 0xBF (of_nat (0x80 + d) # of_nat (0x80 + f) # bs)
      = utf8_decode ((a * 64 + b) * 64 + d) (Suc 0) 0x80 0xBF (of_nat (0x80 + f) # bs)"
    using rd by (subst utf8_decode_cont) (simp_all add: m3)
  have s4: "utf8_decode ((a * 64 + b) * 64 + d) (Suc 0) 0x80 0xBF (of_nat (0x80 + f) # bs)
      = (((a * 64 + b) * 64 + d) * 64 + f) # utf8_decode 0 0 0x80 0xBF bs"
    using rf by (subst utf8_decode_last) (simp_all add: m4)
  have "((a * 64 + b) * 64 + d) * 64 + f = c" unfolding ab abd f_def by simp
  then show ?thesis by (simp only: e append.simps s1 s2 s3 s4)
qed

lemma utf8_decode_bytes:
  assumes "scalar c"
  shows "utf8_decode 0 0 0x80 0xBF (utf8_bytes c @ bs) = c # utf8_decode 0 0 0x80 0xBF bs"
proof -
  consider "c < 0x80" | "0x80 \<le> c" "c < 0x800" | "0x800 \<le> c" "c < 0x10000" | "0x10000 \<le> c"
    by linarith
  then show ?thesis
  proof cases
    case 1 then show ?thesis by (rule utf8_decode_bytes1)
  next
    case 2 then show ?thesis by (rule utf8_decode_bytes2)
  next
    case 3 then show ?thesis using assms by (intro utf8_decode_bytes3) (simp_all add: scalar_def)
  next
    case 4 then show ?thesis using assms by (intro utf8_decode_bytes4) (simp_all add: scalar_def)
  qed
qed

lemma code_unit_lt: "unat (u :: 16 word) < 65536"
  using unsigned_less [of u] by simp

lemma of_nat_unat_unit: "(of_nat (unat (u :: 16 word)) :: 16 word) = u"
  by simp

lemma scalar_pair:
  assumes "high_surrogate u" "low_surrogate v"
  shows "scalar (pair_value u v)" and "\<not> pair_value u v < 0x10000"
proof -
  have hu: "0xD800 \<le> unat u" "unat u \<le> 0xDBFF" using assms by (simp_all add: high_surrogate_def)
  have lv: "0xDC00 \<le> unat v" "unat v \<le> 0xDFFF" using assms by (simp_all add: low_surrogate_def)
  have "unat u - 0xD800 \<le> 0x3FF" using hu by arith
  then have "(unat u - 0xD800) * 0x400 \<le> 0x3FF * 0x400" by (rule mult_le_mono1)
  moreover have "unat v - 0xDC00 \<le> 0x3FF" using lv by arith
  ultimately show "scalar (pair_value u v)" by (simp add: scalar_def pair_value_def)
  show "\<not> pair_value u v < 0x10000" by (simp add: pair_value_def)
qed

lemma scalar_unit: "\<not> high_surrogate u \<Longrightarrow> \<not> low_surrogate u \<Longrightarrow> scalar (unat u)"
  using code_unit_lt [of u] by (auto simp: scalar_def high_surrogate_def low_surrogate_def)

lemma scalar_replacement: "scalar 0xFFFD"
  by (simp add: scalar_def)

lemma code_points_scalar: "c \<in> set (code_points s) \<Longrightarrow> scalar c"
  by (induction s arbitrary: c rule: code_points.induct)
     (auto simp: scalar_pair scalar_unit scalar_replacement split: if_splits)

lemma utf8_decode_Nil: "utf8_decode 0 0 lo hi [] = []"
  by (simp add: utf8_decode.simps)

lemma utf8_decode_concat:
  "\<forall>c \<in> set cs. scalar c \<Longrightarrow>
   utf8_decode 0 0 0x80 0xBF (concat (map utf8_bytes cs) @ bs) = cs @ utf8_decode 0 0 0x80 0xBF bs"
  by (induction cs) (simp_all add: utf8_decode_bytes)

lemma utf16_units_pair:
  assumes "high_surrogate u" "low_surrogate v"
  shows "utf16_units (pair_value u v # cs) = u # v # utf16_units cs"
proof -
  have lv: "0xDC00 \<le> unat v" "unat v \<le> 0xDFFF" using assms by (simp_all add: low_surrogate_def)
  have l: "unat v - 0xDC00 < 0x400" using lv by arith
  have "pair_value u v - 0x10000 = (unat u - 0xD800) * 0x400 + (unat v - 0xDC00)"
    by (simp add: pair_value_def)
  then have d: "(pair_value u v - 0x10000) div 0x400 = unat u - 0xD800"
    and m: "(pair_value u v - 0x10000) mod 0x400 = unat v - 0xDC00"
    using l by simp_all
  have "0xD800 + (unat u - 0xD800) = unat u" "0xDC00 + (unat v - 0xDC00) = unat v"
    using assms by (simp_all add: high_surrogate_def low_surrogate_def)
  then show ?thesis
    by (simp only: utf16_units.simps scalar_pair(2) [OF assms] if_False d m of_nat_unat_unit)
qed

lemma utf16_units_unit: "utf16_units (unat (u :: 16 word) # cs) = u # utf16_units cs"
  using code_unit_lt [of u] by (simp only: utf16_units.simps if_True of_nat_unat_unit)

lemma utf16_units_code_points: "well_formed s \<Longrightarrow> utf16_units (code_points s) = s"
  by (induction s rule: code_points.induct)
     (simp_all add: utf16_units_pair utf16_units_unit del: utf16_units.simps(2) split: if_splits)

lemma strip_bom_hd: "bs \<noteq> [] \<Longrightarrow> hd bs \<noteq> 0xEF \<Longrightarrow> strip_bom bs = bs"
  by (cases bs rule: strip_bom.cases) simp_all

lemma of_nat_byte_eq: "x < 256 \<Longrightarrow> (of_nat x :: byte) = of_nat y \<Longrightarrow> y < 256 \<Longrightarrow> x = y"
  by (metis unat_of_nat_byte)

lemma of_nat_byte_neq_EF:
  assumes "x < 256" "x \<noteq> 239"
  shows "(of_nat x :: byte) \<noteq> 0xEF"
proof
  assume "(of_nat x :: byte) = 0xEF"
  then have "unat (of_nat x :: byte) = unat (0xEF :: byte)" by (rule arg_cong)
  then have "x = 239" using assms(1) by (simp only: unat_of_nat_byte) simp
  then show False using assms(2) by simp
qed

lemma strip_bom_bytes:
  assumes "c \<noteq> 0xFEFF" "c < 0x110000"
  shows "strip_bom (utf8_bytes c @ bs) = utf8_bytes c @ bs"
proof -
  consider "c < 0x80" | "0x80 \<le> c" "c < 0x800" | "0x800 \<le> c" "c < 0x10000" | "0x10000 \<le> c"
    by linarith
  then show ?thesis
  proof cases
    case 1
    have "(of_nat c :: byte) \<noteq> 0xEF"
      using 1 by (intro of_nat_byte_neq_EF) simp_all
    then show ?thesis using 1 by (intro strip_bom_hd) (simp_all add: utf8_bytes_def)
  next
    case 2
    then have "c div 64 < 32" by simp
    then have "(of_nat (0xC0 + c div 64) :: byte) \<noteq> 0xEF"
      by (intro of_nat_byte_neq_EF) simp_all
    then show ?thesis using 2 by (intro strip_bom_hd) (simp_all add: utf8_bytes_def)
  next
    case 3
    define a where "a = c div 4096"
    define b where "b = c div 64 mod 64"
    define d where "d = c mod 64"
    have e: "utf8_bytes c = [of_nat (0xE0 + a), of_nat (0x80 + b), of_nat (0x80 + d)]"
      using 3 by (simp add: utf8_bytes_def a_def b_def d_def)
    have r: "a < 16" "b < 64" "d < 64" using 3 by (simp_all add: a_def b_def d_def)
    have "c div 4096 = c div 64 div 64" by (simp add: div_mult2_eq)
    then have c: "c = (a * 64 + b) * 64 + d" unfolding a_def b_def d_def by simp
    have "\<not> ((of_nat (0xE0 + a) :: byte) = of_nat 239 \<and> (of_nat (0x80 + b) :: byte) = of_nat 187
         \<and> (of_nat (0x80 + d) :: byte) = of_nat 191)"
    proof
      assume h: "(of_nat (0xE0 + a) :: byte) = of_nat 239 \<and> (of_nat (0x80 + b) :: byte) = of_nat 187
         \<and> (of_nat (0x80 + d) :: byte) = of_nat 191"
      have "0xE0 + a = 239" using h r by (intro of_nat_byte_eq) simp_all
      moreover have "0x80 + b = 187" using h r by (intro of_nat_byte_eq) simp_all
      moreover have "0x80 + d = 191" using h r by (intro of_nat_byte_eq) simp_all
      ultimately have "a = 15" "b = 59" "d = 63" by simp_all
      then have "c = 0xFEFF" using c by simp
      then show False using assms by simp
    qed
    then show ?thesis by (simp add: e)
  next
    case 4
    then have "c div 262144 \<le> 4" using assms(2) by simp
    then have "(of_nat (0xF0 + c div 262144) :: byte) \<noteq> 0xEF"
      by (intro of_nat_byte_neq_EF) simp_all
    then show ?thesis using 4 by (intro strip_bom_hd) (simp_all add: utf8_bytes_def)
  qed
qed

lemma code_points_first:
  assumes "well_formed (u # us)" "u \<noteq> 0xFEFF"
  shows "\<exists>c cs. code_points (u # us) = c # cs \<and> c \<noteq> 0xFEFF"
proof (cases us)
  case Nil
  have "unat u \<noteq> 0xFEFF" using assms(2) by (metis of_nat_unat_unit of_nat_numeral)
  then show ?thesis using assms Nil by simp
next
  case (Cons v vs)
  show ?thesis
  proof (cases "high_surrogate u")
    case True
    then have "code_points (u # us) = pair_value u v # code_points vs"
      using assms Cons by simp
    moreover have "pair_value u v \<noteq> 0xFEFF" by (simp add: pair_value_def)
    ultimately show ?thesis by blast
  next
    case False
    then have "code_points (u # us) = unat u # code_points us"
      using assms Cons by simp
    moreover have "unat u \<noteq> 0xFEFF" using assms(2) by (metis of_nat_unat_unit of_nat_numeral)
    ultimately show ?thesis by blast
  qed
qed

lemma TextDecoder_TextEncoder:
  assumes "well_formed s" "s = [] \<or> hd s \<noteq> 0xFEFF"
  shows "TextDecoder_decode (TextEncoder_encode s) = s"
proof (cases s)
  case Nil
  then show ?thesis
    by (simp add: TextDecoder_decode_def TextEncoder_encode_def utf8_decode_Nil)
next
  case (Cons u us)
  then obtain c cs where cp: "code_points s = c # cs" and c: "c \<noteq> 0xFEFF"
    using assms code_points_first [of u us] by auto
  have sc: "\<forall>x \<in> set (code_points s). scalar x" by (simp add: code_points_scalar)
  then have "c < 0x110000" using cp by (simp add: scalar_def)
  then have "strip_bom (TextEncoder_encode s) = TextEncoder_encode s"
    unfolding TextEncoder_encode_def cp using c by (simp add: strip_bom_bytes)
  moreover have "utf8_decode 0 0 0x80 0xBF (TextEncoder_encode s) = code_points s"
    unfolding TextEncoder_encode_def
    using utf8_decode_concat [OF sc, of "[]"] by (simp add: utf8_decode_Nil)
  ultimately show ?thesis
    using assms(1) by (simp add: TextDecoder_decode_def utf16_units_code_points)
qed

lemma toString_utf8_TextEncoder:
  assumes "well_formed s"
  shows "toString_utf8 (TextEncoder_encode s) = s"
proof -
  have sc: "\<forall>x \<in> set (code_points s). scalar x" by (simp add: code_points_scalar)
  have "utf8_decode 0 0 0x80 0xBF (TextEncoder_encode s) = code_points s"
    unfolding TextEncoder_encode_def
    using utf8_decode_concat [OF sc, of "[]"] by (simp add: utf8_decode_Nil)
  then show ?thesis using assms by (simp add: toString_utf8_def utf16_units_code_points)
qed

section \<open>Lemmas about the functions of \<^verbatim>\<open>crypto.ts\<close>\<close>

lemma base64_round_trip: "base64ToArrayBuffer (arrayBufferToBase64 bs) = bs"
  by (simp add: base64ToArrayBuffer_def arrayBufferToBase64_def from_base64_toString_base64)

lemma base64_round_trip_buffer: "base64ToArrayBuffer (toString_base64 bs) = bs"
  by (simp add: base64ToArrayBuffer_def from_base64_toString_base64)

lemma demo_gcm_sound: "gcm_sound demo"
  by (simp add: gcm_sound_def demo_def)

lemma demo_rsa_sound: "rsa_sound demo"
  by (simp add: rsa_sound_def demo_def)

lemma importSymKey_eq:
  "importSymKey P strKey =
     (if aes_key_length (length (base64ToArrayBuffer strKey))
      then Inr \<lparr>extractable = True, usages = [Encrypt, Decrypt],
                material = RawKey (base64ToArrayBuffer strKey)\<rparr>
      else Inl DataError)"
  by (simp add: importSymKey_def importKey_def)

lemma symEncrypt_eq:
  assumes "material k = RawKey kb" "Encrypt \<in> set (usages k)"
  shows "symEncrypt P k iv s = Inr (toString_base64 (iv @ gcm_seal P kb iv (TextEncoder_encode s)))"
  using assms by (simp add: symEncrypt_def encrypt_def stringToUint8Array_def)

lemma sym_round_trip_decode:
  assumes "gcm_sound P" "length rnd = 32" "length iv = 12"
  shows "sym_round_trip P (createRandomSymmetricKey rnd) iv s
    = Inr (TextDecoder_decode (TextEncoder_encode s))"
proof -
  let ?k = "createRandomSymmetricKey rnd :: ('a, 'b) crypto_key"
  let ?m = "TextEncoder_encode s"
  let ?ct = "gcm_seal P rnd iv ?m"
  have k: "?k = \<lparr>extractable = True, usages = [Encrypt, Decrypt], material = RawKey rnd\<rparr>"
    using assms(2) by (simp add: createRandomSymmetricKey_def generateKey_aes256_def)
  have len: "aes_key_length (length rnd)" using assms(2) by (simp add: aes_key_length_def)
  have ex: "exportSymKey P ?k = Inr (arrayBufferToBase64 rnd)"
    by (simp add: k exportSymKey_def exportKey_def)
  have en: "symEncrypt P ?k iv s = Inr (toString_base64 (iv @ ?ct))"
    by (rule symEncrypt_eq) (simp_all add: k)
  have im: "importSymKey P (arrayBufferToBase64 rnd) = Inr ?k"
    using len by (simp add: importSymKey_eq base64_round_trip k)
  have op: "gcm_open P rnd iv ?ct = Some ?m" and l: "length ?ct = length ?m + 16"
    using assms(1,3) len by (simp_all add: gcm_sound_def)
  have de: "decrypt P (AesGcmParams iv) ?k ?ct = Inr ?m"
    using op l by (simp add: decrypt_def k)
  have "symDecrypt P (arrayBufferToBase64 rnd) (toString_base64 (iv @ ?ct))
    = Inr (TextDecoder_decode ?m)"
    using assms(3) de
    by (simp add: symDecrypt_def im base64_round_trip_buffer uint8ArrayToString_def Let_def)
  then show ?thesis by (simp add: sym_round_trip_def ex en)
qed

lemma well_formed_secret: "well_formed (js ''secret'')"
  by (simp add: js_def high_surrogate_def low_surrogate_def)

lemma encode_bom: "TextEncoder_encode [0xFEFF, 0x68] = [0xEF, 0xBB, 0xBF, 0x68]"
  by (simp add: TextEncoder_encode_def utf8_bytes_def high_surrogate_def low_surrogate_def)

lemma decode_bom: "TextDecoder_decode [0xEF, 0xBB, 0xBF, 0x68] = [0x68]"
  by (simp add: TextDecoder_decode_def utf8_decode.simps)

lemma demo_sym_key: "sym_key (createRandomSymmetricKey (replicate 32 0))"
  by (simp add: sym_key_def createRandomSymmetricKey_def generateKey_aes256_def aes_key_length_def)

lemma base64ToArrayBuffer_skips:
  "unbase64 c = None \<Longrightarrow> c \<noteq> CHR ''='' \<Longrightarrow>
   base64ToArrayBuffer (c # s) = base64ToArrayBuffer s"
  by (simp add: base64ToArrayBuffer_def from_base64_def)

lemma base64_sextets_stops:
  "base64_sextets (s @ CHR ''='' # t) = base64_sextets (s @ [CHR ''=''])"
  by (induction s) (simp_all add: unbase64_pad split: option.splits)

lemma base64ToArrayBuffer_stops:
  "base64ToArrayBuffer (s @ CHR ''='' # t) = base64ToArrayBuffer (s @ [CHR ''=''])"
  unfolding base64ToArrayBuffer_def from_base64_def
  by (rule arg_cong [OF base64_sextets_stops])

lemma decode_empty: "base64ToArrayBuffer [] = []"
  by (simp add: base64ToArrayBuffer_def from_base64_def)

lemma b64char_0: "b64char 0 = CHR ''A''"
  unfolding b64char_def by code_simp

lemma encode_key16:
  "arrayBufferToBase64 [0, 0, 0, 0, 0, 0, 0, 0, 0, 0, 0, 0, 0, 0, 0, 0] = ''AAAAAAAAAAAAAAAAAAAAAA==''"
  by (simp add: arrayBufferToBase64_def b64char_0)

lemma decode_key16:
  "base64ToArrayBuffer ''AAAAAAAAAAAAAAAAAAAAAA=='' = [0, 0, 0, 0, 0, 0, 0, 0, 0, 0, 0, 0, 0, 0, 0, 0]"
  using base64_round_trip [of "[0, 0, 0, 0, 0, 0, 0, 0, 0, 0, 0, 0, 0, 0, 0, 0]"]
  by (simp only: encode_key16)

lemma generateRsaKeyPair_eq:
  "rsa_keygen P keySeed = (pub, prv) \<Longrightarrow>
   generateRsaKeyPair P keySeed =
     (\<lparr>extractable = True, usages = [Encrypt], material = RsaPublic pub\<rparr>,
      \<lparr>extractable = True, usages = [Decrypt], material = RsaPrivate prv\<rparr>)"
  by (simp add: generateRsaKeyPair_def generateKey_rsa_def)

lemma rsa_round_trip_decode:
  assumes "rsa_sound P" "length (base64ToArrayBuffer b64Data) \<le> 190"
  shows "rsa_round_trip P keySeed seed b64Data = Inr (toString_utf8 (base64ToArrayBuffer b64Data))"
proof -
  obtain pub prv where g: "rsa_keygen P keySeed = (pub, prv)" by (cases "rsa_keygen P keySeed")
  let ?pk = "\<lparr>extractable = True, usages = [Encrypt], material = RsaPublic pub\<rparr>"
  let ?sk = "\<lparr>extractable = True, usages = [Decrypt], material = RsaPrivate prv\<rparr>"
  let ?m = "base64ToArrayBuffer b64Data"
  have sp: "spki_parse P (spki_der P pub) = Some pub"
    using assms(1) g by (simp add: rsa_sound_def)
  obtain c where c: "oaep_seal P pub seed ?m = Some c" "oaep_open P prv c = Some ?m"
    using assms g unfolding rsa_sound_def by blast
  have ex: "exportPubKey P ?pk = Inr (arrayBufferToBase64 (spki_der P pub))"
    by (simp add: exportPubKey_def exportKey_def)
  have im: "importPubKey P (arrayBufferToBase64 (spki_der P pub)) = Inr ?pk"
    by (simp add: importPubKey_def importKey_def base64_round_trip sp)
  have en: "rsaEncrypt P seed b64Data (arrayBufferToBase64 (spki_der P pub))
    = Inr (toString_base64 c)"
    by (simp add: rsaEncrypt_def im encrypt_def c)
  have de: "rsaDecrypt P (toString_base64 c) ?sk = Inr (toString_utf8 ?m)"
    by (simp add: rsaDecrypt_def decrypt_def base64_round_trip_buffer c)
  show ?thesis
    by (simp add: rsa_round_trip_def generateRsaKeyPair_eq [OF g] ex en de)
qed

lemma decode_hello: "base64ToArrayBuffer ''aGVsbG8='' = [104, 101, 108, 108, 111]"
  by (simp add: base64ToArrayBuffer_def from_base64_def unbase64_def)

lemma toString_hello: "toString_utf8 [104, 101, 108, 108, 111] = js ''hello''"
  by (simp add: toString_utf8_def utf8_decode.simps js_def)

lemma decode_AAAA: "base64ToArrayBuffer ''AAAA'' = [0, 0, 0]"
  by (simp add: base64ToArrayBuffer_def from_base64_def unbase64_def)

section \<open>Lemmas about the registry\<close>

lemma find_append_new:
  "find p xs = None \<Longrightarrow> find p (xs @ [y]) = (if p y then Some y else None)"
  by (induction xs) (auto split: if_splits)

lemma registerNode_fresh:
  assumes "find (\<lambda>n. nodeId n = nodeId b) (nodes st) = None"
  shows "registerNode st b =
    ((201, Text ''Node registered successfully.''),
     st\<lparr>nodes := nodes st @ [\<lparr>nodeId = nodeId b, pubKey = pubKey b\<rparr>]\<rparr>)"
  using assms by (simp add: registerNode_def)

lemma registerNode_duplicate:
  assumes "find (\<lambda>n. nodeId n = nodeId b) (nodes st) = Some n"
  shows "registerNode st b = ((400, Text ''Node already registered.''), st)"
  using assms by (simp add: registerNode_def)

lemma handle_keeps_entry:
  assumes "filter (\<lambda>n. nodeId n = i) (nodes st) = [e]" "handle parseInt st r = (resp, st')"
  shows "filter (\<lambda>n. nodeId n = i) (nodes st') = [e]"
proof (cases r)
  case (PostRegisterNode b)
  show ?thesis
  proof (cases "find (\<lambda>n. nodeId n = nodeId b) (nodes st)")
    case None
    then have "nodeId b \<noteq> i"
      using assms(1) by (metis (mono_tags, lifting) filter_empty_conv find_None_iff list.distinct(1))
    then show ?thesis using assms None PostRegisterNode by (auto simp: registerNode_def)
  next
    case (Some n)
    then show ?thesis using assms PostRegisterNode by (auto simp: registerNode_def)
  qed
next
  case GetStatus
  then show ?thesis using assms by auto
next
  case (GetPrivateKey q)
  then show ?thesis using assms by auto
next
  case GetNodeRegistry
  then show ?thesis using assms by auto
qed

lemma serve_keeps_entry:
  assumes "filter (\<lambda>n. nodeId n = i) (nodes st) = [e]" "serve parseInt st rs = (resps, st')"
  shows "filter (\<lambda>n. nodeId n = i) (nodes st') = [e]"
  using assms
proof (induction rs arbitrary: st resps)
  case Nil
  then show ?case by simp
next
  case (Cons r rs)
  obtain resp st1 where h: "handle parseInt st r = (resp, st1)" by (cases "handle parseInt st r")
  obtain resps1 where s: "serve parseInt st1 rs = (resps1, st')"
    using Cons.prems(2) h by (auto split: prod.splits)
  have "filter (\<lambda>n. nodeId n = i) (nodes st1) = [e]"
    using Cons.prems(1) h by (rule handle_keeps_entry)
  then show ?case using s by (rule Cons.IH)
qed

lemma filter_single_find:
  "filter p xs = [e] \<Longrightarrow> find p xs = Some e"
  by (induction xs) (auto split: if_splits simp: filter_empty_conv find_None_iff)

lemma handle_nodeKeys: "handle parseInt st r = (resp, st') \<Longrightarrow> nodeKeys st' = nodeKeys st"
  by (cases r) (auto simp: registerNode_def split: option.splits)

lemma serve_nodeKeys: "serve parseInt st rs = (resps, st') \<Longrightarrow> nodeKeys st' = nodeKeys st"
proof (induction rs arbitrary: st resps)
  case Nil
  then show ?case by simp
next
  case (Cons r rs)
  obtain resp st1 where h: "handle parseInt st r = (resp, st1)" by (cases "handle parseInt st r")
  obtain resps1 where s: "serve parseInt st1 rs = (resps1, st')"
    using Cons.prems h by (auto split: prod.splits)
  show ?case using Cons.IH [OF s] handle_nodeKeys [OF h] by simp
qed

lemma getPrivateKey_empty:
  "nodeKeys st = Map.empty \<Longrightarrow>
   getPrivateKey parseInt st q = (404, Text ''Node not found or key not generated.'')"
  by (simp add: getPrivateKey_def split: option.splits)

lemma serve_not_found:
  assumes "nodeKeys st = Map.empty" "serve parseInt st rs = (resps, st')"
    "i < length rs" "rs ! i = GetPrivateKey q"
  shows "resps ! i = (404, Text ''Node not found or key not generated.'')"
  using assms
proof (induction rs arbitrary: st resps i)
  case Nil
  then show ?case by simp
next
  case (Cons r rs)
  obtain resp st1 where h: "handle parseInt st r = (resp, st1)" by (cases "handle parseInt st r")
  obtain resps1 where s: "serve parseInt st1 rs = (resps1, st')" and e: "resps = resp # resps1"
    using Cons.prems(2) h by (auto split: prod.splits)
  have k: "nodeKeys st1 = Map.empty" using handle_nodeKeys [OF h] Cons.prems(1) by simp
  show ?case
  proof (cases i)
    case 0
    then have "r = GetPrivateKey q" using Cons.prems(4) by simp
    then have "resp = (404, Text ''Node not found or key not generated.'')"
      using h getPrivateKey_empty [OF Cons.prems(1)] by simp
    then show ?thesis using 0 e by simp
  next
    case (Suc j)
    then have "j < length rs" "rs ! j = GetPrivateKey q" using Cons.prems(3,4) by simp_all
    then have "resps1 ! j = (404, Text ''Node not found or key not generated.'')"
      using Cons.IH [OF k s] by blast
    then show ?thesis using Suc e by simp
  qed
qed

section \<open>The claims\<close>

text \<open>
  Claim C1, as amended. For a generated symmetric key, \<^verbatim>\<open>symDecrypt(exportSymKey(k),
  symEncrypt(k, s))\<close> returns \<open>s\<close> decoded from its own UTF-8 encoding. That is \<open>s\<close>
  itself whenever \<open>s\<close> has no unpaired surrogate and does not begin with U+FEFF.
\<close>

theorem sym_round_trip_well_formed:
  assumes "gcm_sound P" "length rnd = 32" "length iv = 12"
  shows "sym_round_trip P (createRandomSymmetricKey rnd) iv s
      = Inr (uint8ArrayToString (stringToUint8Array s))
    \<and> (well_formed s \<and> (s = [] \<or> hd s \<noteq> 0xFEFF) \<longrightarrow>
          sym_round_trip P (createRandomSymmetricKey rnd) iv s = Inr s)"
  using sym_round_trip_decode [OF assms] TextDecoder_TextEncoder [of s]
  by (simp add: uint8ArrayToString_def stringToUint8Array_def)

theorem sym_round_trip_well_formed_witness:
  "gcm_sound demo \<and> length (replicate 32 (0::byte)) = 32 \<and> length (replicate 12 (0::byte)) = 12
   \<and> well_formed (js ''secret'') \<and> hd (js ''secret'') \<noteq> 0xFEFF
   \<and> sym_round_trip demo (createRandomSymmetricKey (replicate 32 0)) (replicate 12 0)
        (js ''secret'') = Inr (js ''secret'')"
proof -
  have h: "hd (js ''secret'') \<noteq> 0xFEFF" by (simp add: js_def)
  have l: "length (replicate 32 (0::byte)) = 32" "length (replicate 12 (0::byte)) = 12"
    by simp_all
  have "well_formed (js ''secret'') \<and> (js ''secret'' = [] \<or> hd (js ''secret'') \<noteq> 0xFEFF) \<longrightarrow>
      sym_round_trip demo (createRandomSymmetricKey (replicate 32 0)) (replicate 12 0)
        (js ''secret'') = Inr (js ''secret'')"
    using sym_round_trip_well_formed [OF demo_gcm_sound l, of "js ''secret''"] by (rule conjunct2)
  then have "sym_round_trip demo (createRandomSymmetricKey (replicate 32 0)) (replicate 12 0)
        (js ''secret'') = Inr (js ''secret'')"
    using h well_formed_secret by blast
  then show ?thesis using h demo_gcm_sound well_formed_secret by simp
qed

text \<open>
  Claim C1 as stated fails: the plaintext U+FEFF followed by \<^verbatim>\<open>h\<close> comes back as
  \<^verbatim>\<open>h\<close> alone, because \<^verbatim>\<open>TextDecoder\<close> removes a leading byte order mark.
\<close>

theorem sym_round_trip_bom_counterexample:
  "sym_round_trip demo (createRandomSymmetricKey (replicate 32 0)) (replicate 12 0) [0xFEFF, 0x68]
     = Inr [0x68]
   \<and> sym_round_trip demo (createRandomSymmetricKey (replicate 32 0)) (replicate 12 0) [0xFEFF, 0x68]
     \<noteq> Inr [0xFEFF, 0x68]"
proof -
  have "sym_round_trip demo (createRandomSymmetricKey (replicate 32 0)) (replicate 12 0) [0xFEFF, 0x68]
     = Inr (TextDecoder_decode (TextEncoder_encode [0xFEFF, 0x68]))"
    by (intro sym_round_trip_decode demo_gcm_sound) simp_all
  then show ?thesis by (simp add: encode_bom decode_bom)
qed

text \<open>
  Claim C2. The blob of \<open>symEncrypt\<close> is the base64 text of the 12-byte IV followed
  by the AES-GCM output, which is 16 bytes longer than the encoded plaintext; its first
  12 decoded bytes are the IV.
\<close>

theorem symEncrypt_layout:
  assumes "gcm_sound P" "sym_key k" "length iv = 12"
  shows "\<exists>out. encrypt P [] (AesGcmParams iv) k (stringToUint8Array s) = Inr out
    \<and> length out = length (stringToUint8Array s) + 16
    \<and> symEncrypt P k iv s = Inr (arrayBufferToBase64 (iv @ out))
    \<and> base64ToArrayBuffer (arrayBufferToBase64 (iv @ out)) = iv @ out
    \<and> take 12 (base64ToArrayBuffer (arrayBufferToBase64 (iv @ out))) = iv"
proof -
  obtain kb where kb: "material k = RawKey kb" "aes_key_length (length kb)"
    and u: "Encrypt \<in> set (usages k)"
    using assms(2) by (auto simp: sym_key_def split: key_material.splits)
  let ?out = "gcm_seal P kb iv (stringToUint8Array s)"
  have "encrypt P [] (AesGcmParams iv) k (stringToUint8Array s) = Inr ?out"
    using kb u by (simp add: encrypt_def)
  moreover have "length ?out = length (stringToUint8Array s) + 16"
    using assms(1,3) kb(2) by (simp add: gcm_sound_def)
  moreover have "symEncrypt P k iv s = Inr (arrayBufferToBase64 (iv @ ?out))"
    using symEncrypt_eq [OF kb(1) u] by (simp add: arrayBufferToBase64_def stringToUint8Array_def)
  ultimately show ?thesis using assms(3) by (simp add: base64_round_trip)
qed

theorem symEncrypt_layout_witness:
  "gcm_sound demo \<and> sym_key (createRandomSymmetricKey (replicate 32 0) :: (byte list, byte list) crypto_key)
   \<and> length (replicate 12 (7::byte)) = 12
   \<and> (\<exists>out. symEncrypt demo (createRandomSymmetricKey (replicate 32 0)) (replicate 12 7) (js ''hi'')
          = Inr (arrayBufferToBase64 (replicate 12 7 @ out))
        \<and> take 12 (base64ToArrayBuffer (arrayBufferToBase64 (replicate 12 7 @ out)))
          = replicate 12 7)"
  using symEncrypt_layout [OF demo_gcm_sound demo_sym_key, of "replicate 12 7" "js ''hi''"]
    demo_gcm_sound demo_sym_key
  by auto

text \<open>
  Claim C3, as amended. On a blob that decodes to fewer than 12 bytes \<open>symDecrypt\<close>
  always fails, but without a check of its own: the key is imported first, and with an
  importable key the whole short blob is passed as the IV, with an empty ciphertext, to
  \<open>decrypt\<close>, which raises \<open>OperationError\<close>. With a key string that does not import the
  error is the import's \<open>DataError\<close>.
\<close>

theorem symDecrypt_short_blob:
  assumes "length (base64ToArrayBuffer blob) < 12"
  shows "symDecrypt P strKey blob
      = (case importSymKey P strKey of
           Inl e \<Rightarrow> Inl e
         | Inr key \<Rightarrow>
             (case decrypt P (AesGcmParams (base64ToArrayBuffer blob)) key [] of
                Inl e \<Rightarrow> Inl e
              | Inr decryptedData \<Rightarrow> Inr (uint8ArrayToString decryptedData)))
    \<and> symDecrypt P strKey blob
      = (if aes_key_length (length (base64ToArrayBuffer strKey)) then Inl OperationError
         else Inl DataError)"
  using assms by (simp add: symDecrypt_def importSymKey_eq decrypt_def Let_def)

theorem symDecrypt_short_blob_witness:
  "length (base64ToArrayBuffer []) < 12
   \<and> symDecrypt demo ''AAAAAAAAAAAAAAAAAAAAAA=='' [] = Inl OperationError"
proof -
  have l: "length (base64ToArrayBuffer []) < 12" by (simp add: decode_empty)
  have "symDecrypt demo ''AAAAAAAAAAAAAAAAAAAAAA=='' []
      = (if aes_key_length (length (base64ToArrayBuffer ''AAAAAAAAAAAAAAAAAAAAAA==''))
         then Inl OperationError else Inl DataError)"
    using symDecrypt_short_blob [OF l, of demo "''AAAAAAAAAAAAAAAAAAAAAA==''"] by (rule conjunct2)
  then show ?thesis using l by (simp add: decode_key16 aes_key_length_def)
qed

text \<open>
  Claim C3 as stated fails: with the empty key string and the empty blob the error is the
  key import's \<open>DataError\<close>, not a decryption error.
\<close>

theorem symDecrypt_bad_key_counterexample:
  "length (base64ToArrayBuffer []) < 12 \<and> symDecrypt demo [] [] = Inl DataError"
  by (simp add: symDecrypt_def importSymKey_eq decode_empty aes_key_length_def)

text \<open>
  Claim C4, as amended. \<open>importSymKey\<close> succeeds exactly when the bytes that Node's
  lenient decoder reads from the string number 16, 24 or 32, and fails with
  \<open>DataError\<close> otherwise; the text itself is never validated.
\<close>

theorem importSymKey_lengths:
  "importSymKey P strKey =
     (if length (base64ToArrayBuffer strKey) = 16 \<or> length (base64ToArrayBuffer strKey) = 24
         \<or> length (base64ToArrayBuffer strKey) = 32
      then Inr \<lparr>extractable = True, usages = [Encrypt, Decrypt],
                material = RawKey (base64ToArrayBuffer strKey)\<rparr>
      else Inl DataError)"
  by (simp add: importSymKey_eq aes_key_length_def)

text \<open>
  Claim C4 as stated fails: the base64 text of sixteen zero bytes is imported.
\<close>

theorem importSymKey_16_bytes_counterexample:
  "length (base64ToArrayBuffer ''AAAAAAAAAAAAAAAAAAAAAA=='') = 16
   \<and> importSymKey demo ''AAAAAAAAAAAAAAAAAAAAAA==''
     = Inr \<lparr>extractable = True, usages = [Encrypt, Decrypt], material = RawKey
              [0, 0, 0, 0, 0, 0, 0, 0, 0, 0, 0, 0, 0, 0, 0, 0]\<rparr>"
  by (simp add: importSymKey_eq decode_key16 aes_key_length_def)

text \<open>
  Claim C5. For a generated RSA pair, encrypting base64 data of at most 190 bytes under
  the exported and re-imported public key and decrypting with the private key returns
  the bytes decoded as UTF-8; for \<^verbatim>\<open>"aGVsbG8="\<close> that is \<^verbatim>\<open>"hello"\<close>.
\<close>

theorem rsa_round_trip_hello:
  assumes "rsa_sound P"
  shows "(length (base64ToArrayBuffer b64Data) \<le> 190 \<longrightarrow>
            rsa_round_trip P keySeed seed b64Data
              = Inr (toString_utf8 (base64ToArrayBuffer b64Data)))
    \<and> rsa_round_trip P keySeed seed ''aGVsbG8='' = Inr (js ''hello'')"
proof -
  have "rsa_round_trip P keySeed seed ''aGVsbG8=''
      = Inr (toString_utf8 (base64ToArrayBuffer ''aGVsbG8=''))"
    using assms by (rule rsa_round_trip_decode) (simp add: decode_hello)
  then show ?thesis using rsa_round_trip_decode [OF assms] by (simp add: decode_hello toString_hello)
qed

theorem rsa_round_trip_hello_witness:
  "rsa_sound demo \<and> rsa_round_trip demo [1, 2, 3] [4, 5] ''aGVsbG8='' = Inr (js ''hello'')"
  using rsa_round_trip_hello [OF demo_rsa_sound, of "''aGVsbG8=''" "[1, 2, 3]" "[4, 5]"]
    demo_rsa_sound
  by simp

text \<open>
  Claim C6. A key returned by \<open>importPubKey\<close> carries the usage \<open>Encrypt\<close> only and
  \<open>decrypt\<close> refuses it; a key returned by \<open>importPrvKey\<close> carries \<open>Decrypt\<close> only and
  \<open>encrypt\<close> refuses it.
\<close>

theorem imported_key_usages:
  "(importPubKey P strKey = Inr k \<longrightarrow>
      usages k = [Encrypt] \<and> decrypt P params k data = Inl InvalidAccessError)
   \<and> (importPrvKey P strKey = Inr k \<longrightarrow>
      usages k = [Decrypt] \<and> encrypt P seed params k data = Inl InvalidAccessError)"
  by (cases params)
     (auto simp: importPubKey_def importPrvKey_def importKey_def decrypt_def encrypt_def
           split: option.splits)

theorem imported_key_usages_witness:
  "importPubKey demo ''AAAA''
     = Inr \<lparr>extractable = True, usages = [Encrypt], material = RsaPublic [0, 0, 0]\<rparr>
   \<and> decrypt demo RsaOaepParams
        \<lparr>extractable = True, usages = [Encrypt], material = RsaPublic [0, 0, 0]\<rparr> [1]
     = Inl InvalidAccessError
   \<and> importPrvKey demo ''AAAA''
     = Inr \<lparr>extractable = True, usages = [Decrypt], material = RsaPrivate [0, 0, 0]\<rparr>
   \<and> encrypt demo [] RsaOaepParams
        \<lparr>extractable = True, usages = [Decrypt], material = RsaPrivate [0, 0, 0]\<rparr> [1]
     = Inl InvalidAccessError"
proof -
  have a: "importPubKey demo ''AAAA''
     = Inr \<lparr>extractable = True, usages = [Encrypt], material = RsaPublic [0, 0, 0]\<rparr>"
    by (simp add: importPubKey_def importKey_def decode_AAAA demo_def)
  have b: "importPrvKey demo ''AAAA''
     = Inr \<lparr>extractable = True, usages = [Decrypt], material = RsaPrivate [0, 0, 0]\<rparr>"
    by (simp add: importPrvKey_def importKey_def decode_AAAA demo_def)
  show ?thesis
    using a b
      imported_key_usages [of demo "''AAAA''"
        "\<lparr>extractable = True, usages = [Encrypt], material = RsaPublic [0, 0, 0]\<rparr>"
        RsaOaepParams "[1]" "[]"]
      imported_key_usages [of demo "''AAAA''"
        "\<lparr>extractable = True, usages = [Decrypt], material = RsaPrivate [0, 0, 0]\<rparr>"
        RsaOaepParams "[1]" "[]"]
    by simp
qed

text \<open>
  Claim C7. Once a node id is registered, in every later state of the registry a
  registration with that id, whatever the key, is answered with status 400 and leaves
  the state as it is; the listing holds exactly one entry for the id, the one first
  registered.
\<close>

theorem registry_duplicate_rule:
  assumes "find (\<lambda>n. nodeId n = nodeId b) (nodes st0) = None"
    and "serve parseInt (snd (registerNode st0 b)) later = (resps, st)"
  shows "fst (registerNode st0 b) = (201, Text ''Node registered successfully.'')
    \<and> (\<forall>pk. registerNode st \<lparr>nodeId = nodeId b, pubKey = pk\<rparr>
          = ((400, Text ''Node already registered.''), st))
    \<and> filter (\<lambda>n. nodeId n = nodeId b) (nodes st) = [\<lparr>nodeId = nodeId b, pubKey = pubKey b\<rparr>]
    \<and> handle parseInt st GetNodeRegistry = ((200, NodesJson (nodes st)), st)"
proof -
  let ?e = "\<lparr>nodeId = nodeId b, pubKey = pubKey b\<rparr>"
  let ?st1 = "snd (registerNode st0 b)"
  have r: "registerNode st0 b = ((201, Text ''Node registered successfully.''),
      st0\<lparr>nodes := nodes st0 @ [?e]\<rparr>)"
    using assms(1) by (rule registerNode_fresh)
  have "filter (\<lambda>n. nodeId n = nodeId b) (nodes st0) = []"
    using assms(1) by (simp add: find_None_iff filter_empty_conv)
  then have "filter (\<lambda>n. nodeId n = nodeId b) (nodes ?st1) = [?e]" by (simp add: r)
  then have f: "filter (\<lambda>n. nodeId n = nodeId b) (nodes st) = [?e]"
    using assms(2) by (rule serve_keeps_entry)
  then have "find (\<lambda>n. nodeId n = nodeId b) (nodes st) = Some ?e" by (rule filter_single_find)
  then have "\<forall>pk. registerNode st \<lparr>nodeId = nodeId b, pubKey = pk\<rparr>
          = ((400, Text ''Node already registered.''), st)"
    by (simp add: registerNode_def)
  then show ?thesis using r f by (simp add: getNodeRegistry_def)
qed

theorem registry_duplicate_rule_witness:
  "find (\<lambda>n. nodeId n = 5) (nodes initial) = None
   \<and> registerNode initial \<lparr>nodeId = 5, pubKey = ''first''\<rparr>
     = ((201, Text ''Node registered successfully.''),
        \<lparr>nodes = [\<lparr>nodeId = 5, pubKey = ''first''\<rparr>], nodeKeys = Map.empty\<rparr>)
   \<and> registerNode \<lparr>nodes = [\<lparr>nodeId = 5, pubKey = ''first''\<rparr>], nodeKeys = Map.empty\<rparr>
        \<lparr>nodeId = 5, pubKey = ''second''\<rparr>
     = ((400, Text ''Node already registered.''),
        \<lparr>nodes = [\<lparr>nodeId = 5, pubKey = ''first''\<rparr>], nodeKeys = Map.empty\<rparr>)"
proof -
  let ?b = "\<lparr>nodeId = 5, pubKey = ''first''\<rparr>"
  let ?st = "\<lparr>nodes = [?b], nodeKeys = Map.empty\<rparr>"
  have f: "find (\<lambda>n. nodeId n = nodeId ?b) (nodes initial) = None" by (simp add: initial_def)
  have r: "registerNode initial ?b = ((201, Text ''Node registered successfully.''), ?st)"
    by (simp add: initial_def registerNode_def)
  have s: "serve (\<lambda>q. None) (snd (registerNode initial ?b))
      [PostRegisterNode \<lparr>nodeId = 5, pubKey = ''second''\<rparr>]
    = ([(400, Text ''Node already registered.'')], ?st)"
    unfolding r by (simp add: registerNode_def)
  show ?thesis using registry_duplicate_rule [OF f s] f r by simp
qed

text \<open>
  Claim C8. Two calls of \<open>symEncrypt\<close> with the same key and plaintext and different
  12-byte IVs return different blobs, whose first 12 decoded bytes are the two IVs.
\<close>

theorem symEncrypt_distinct_ivs:
  assumes "sym_key k" "length iv1 = 12" "length iv2 = 12" "iv1 \<noteq> iv2"
  shows "\<exists>blob1 blob2. symEncrypt P k iv1 s = Inr blob1 \<and> symEncrypt P k iv2 s = Inr blob2
    \<and> blob1 \<noteq> blob2
    \<and> take 12 (base64ToArrayBuffer blob1) = iv1 \<and> take 12 (base64ToArrayBuffer blob2) = iv2
    \<and> take 12 (base64ToArrayBuffer blob1) \<noteq> take 12 (base64ToArrayBuffer blob2)"
proof -
  obtain kb where kb: "material k = RawKey kb" and u: "Encrypt \<in> set (usages k)"
    using assms(1) by (auto simp: sym_key_def split: key_material.splits)
  let ?b1 = "toString_base64 (iv1 @ gcm_seal P kb iv1 (TextEncoder_encode s))"
  let ?b2 = "toString_base64 (iv2 @ gcm_seal P kb iv2 (TextEncoder_encode s))"
  have t1: "take 12 (base64ToArrayBuffer ?b1) = iv1" using assms(2) by (simp add: base64_round_trip_buffer)
  have t2: "take 12 (base64ToArrayBuffer ?b2) = iv2" using assms(3) by (simp add: base64_round_trip_buffer)
  have "?b1 \<noteq> ?b2" using t1 t2 assms(4) by metis
  then show ?thesis
    using symEncrypt_eq [OF kb u, of P iv1 s] symEncrypt_eq [OF kb u, of P iv2 s] t1 t2 assms(4)
    by simp
qed

theorem symEncrypt_distinct_ivs_witness:
  "sym_key (createRandomSymmetricKey (replicate 32 0) :: (byte list, byte list) crypto_key)
   \<and> replicate 12 (1::byte) \<noteq> replicate 12 2
   \<and> (\<exists>blob1 blob2.
        symEncrypt demo (createRandomSymmetricKey (replicate 32 0)) (replicate 12 1) (js ''hi'')
          = Inr blob1
        \<and> symEncrypt demo (createRandomSymmetricKey (replicate 32 0)) (replicate 12 2) (js ''hi'')
          = Inr blob2
        \<and> blob1 \<noteq> blob2)"
proof -
  have n: "replicate 12 (1::byte) \<noteq> replicate 12 2" by (simp add: numeral_eq_Suc)
  show ?thesis
    using symEncrypt_distinct_ivs [OF demo_sym_key _ _ n, of demo "js ''hi''"] n demo_sym_key
    by auto
qed

text \<open>
  Claim C9. \<open>exportPrvKey\<close> returns null for null, and for an extractable private key
  the base64 text of its PKCS8 encoding. The private keys of \<open>generateRsaKeyPair\<close> and of
  \<open>importPrvKey\<close> are extractable.
\<close>

theorem exportPrvKey_null:
  "exportPrvKey P None = Inr None
   \<and> (material k = RsaPrivate prv \<and> extractable k \<longrightarrow>
        exportPrvKey P (Some k) = Inr (Some (arrayBufferToBase64 (pkcs8_der P prv))))
   \<and> (rsa_keygen P keySeed = (pub, prv) \<longrightarrow>
        exportPrvKey P (Some (snd (generateRsaKeyPair P keySeed)))
          = Inr (Some (arrayBufferToBase64 (pkcs8_der P prv))))
   \<and> (importPrvKey P strKey = Inr k \<and> material k = RsaPrivate prv \<longrightarrow>
        exportPrvKey P (Some k) = Inr (Some (arrayBufferToBase64 (pkcs8_der P prv))))"
proof -
  have "extractable k" if "importPrvKey P strKey = Inr k"
    using that by (auto simp: importPrvKey_def importKey_def split: option.splits if_splits)
  then show ?thesis
    by (auto simp: exportPrvKey_def exportKey_def generateRsaKeyPair_eq)
qed

theorem exportPrvKey_null_witness:
  "exportPrvKey demo None = Inr None
   \<and> exportPrvKey demo (Some (snd (generateRsaKeyPair demo [0, 0, 0]))) = Inr (Some ''AAAA'')"
proof -
  have g: "snd (generateRsaKeyPair demo [0, 0, 0])
    = \<lparr>extractable = True, usages = [Decrypt], material = RsaPrivate [0, 0, 0]\<rparr>"
    by (simp add: generateRsaKeyPair_def generateKey_rsa_def demo_def)
  have e: "arrayBufferToBase64 (pkcs8_der demo [0, 0, 0]) = ''AAAA''"
    by (simp add: arrayBufferToBase64_def demo_def b64char_0)
  show ?thesis
    using exportPrvKey_null [of demo "snd (generateRsaKeyPair demo [0, 0, 0])" "[0, 0, 0]"]
    by (simp add: g e)
qed

text \<open>
  Claim C10. No request changes \<^verbatim>\<open>nodeKeys\<close>: it is empty in every state reachable
  from the initial one, and every request for a private key is answered with status 404.
\<close>

theorem nodeKeys_stays_empty:
  assumes "serve parseInt initial rs = (resps, st)"
  shows "nodeKeys st = Map.empty
    \<and> (\<forall>q. handle parseInt st (GetPrivateKey q)
          = ((404, Text ''Node not found or key not generated.''), st))
    \<and> (\<forall>i < length rs. \<forall>q. rs ! i = GetPrivateKey q \<longrightarrow>
          resps ! i = (404, Text ''Node not found or key not generated.''))"
proof -
  have i: "nodeKeys initial = Map.empty" by (simp add: initial_def)
  have k: "nodeKeys st = Map.empty" using serve_nodeKeys [OF assms] i by simp
  have "\<forall>i < length rs. \<forall>q. rs ! i = GetPrivateKey q \<longrightarrow>
          resps ! i = (404, Text ''Node not found or key not generated.'')"
    using serve_not_found [OF i assms] by blast
  then show ?thesis using k getPrivateKey_empty [OF k] by simp
qed

theorem nodeKeys_stays_empty_witness:
  "serve (\<lambda>q. Some 5) initial
     [PostRegisterNode \<lparr>nodeId = 5, pubKey = ''k''\<rparr>, GetPrivateKey (Some ''5'')]
   = ([(201, Text ''Node registered successfully.''),
       (404, Text ''Node not found or key not generated.'')],
      \<lparr>nodes = [\<lparr>nodeId = 5, pubKey = ''k''\<rparr>], nodeKeys = Map.empty\<rparr>)
   \<and> handle (\<lambda>q. Some 5) \<lparr>nodes = [\<lparr>nodeId = 5, pubKey = ''k''\<rparr>], nodeKeys = Map.empty\<rparr>
        (GetPrivateKey (Some ''5''))
     = ((404, Text ''Node not found or key not generated.''),
        \<lparr>nodes = [\<lparr>nodeId = 5, pubKey = ''k''\<rparr>], nodeKeys = Map.empty\<rparr>)"
proof -
  have s: "serve (\<lambda>q. Some 5) initial
     [PostRegisterNode \<lparr>nodeId = 5, pubKey = ''k''\<rparr>, GetPrivateKey (Some ''5'')]
   = ([(201, Text ''Node registered successfully.''),
       (404, Text ''Node not found or key not generated.'')],
      \<lparr>nodes = [\<lparr>nodeId = 5, pubKey = ''k''\<rparr>], nodeKeys = Map.empty\<rparr>)"
    by (simp add: initial_def registerNode_def getPrivateKey_def)
  show ?thesis using s nodeKeys_stays_empty [OF s] by simp
qed

end
